theory Spec2Isabelle
  imports Main "HOL-Library.Word" "HOL-Library.Multiset"
begin

section \<open>The ordering buffer of \<open>ordering_buffer.cpp\<close>\<close>

text \<open>
  The C++ types \<open>int\<close> and \<open>unsigned int\<close> are both 32-bit words. A word is read
  as an \<open>unsigned int\<close> by \<^const>\<open>unat\<close> and as an \<open>int\<close> by \<^const>\<open>sint\<close>. Converting an
  \<open>int\<close> to \<open>unsigned int\<close> (the usual arithmetic conversion of \<open>int / unsigned\<close>
  and \<open>int % unsigned\<close>) and converting the unsigned result back into an \<open>int\<close>
  variable both keep the bit pattern, so on words they are the identity, and the
  division and modulus are the unsigned ones of the word type.
\<close>

type_synonym int32 = "32 word"
type_synonym uint32 = "32 word"

text \<open>\<open>class Block\<close>: one field \<open>number_\<close>, read by \<open>number()\<close>.\<close>

datatype Block = Block (number: int32)

text \<open>
  \<open>class BlocksBuffer\<close>: the data members. The two mutexes and the condition variable
  carry no data; what they do is modelled below by the outcome of
  \<open>GetCurrentBlock\<close> and by the synchronisation events of each member function.
\<close>

record BlocksBuffer =
  buffer_size :: uint32
  buffer :: "(Block \<times> int32) list"
  current_blocknum :: int32

text \<open>
  The constructor: \<open>buffer_size\<close> copies of \<open>make_pair(Block(0), -1)\<close> and
  \<open>current_blocknum = 0\<close>.
\<close>

definition new_BlocksBuffer :: "uint32 \<Rightarrow> BlocksBuffer" where
  "new_BlocksBuffer bsize =
     \<lparr>buffer_size = bsize,
      buffer = replicate (unat bsize) (Block 0, - 1),
      current_blocknum = 0\<rparr>"

text \<open>
  What the code does not define is a value of its own: an integer division or modulus by
  a \<open>buffer_size\<close> of zero, and \<open>buffer[index]\<close> outside the vector.
\<close>

datatype fault = DivisionByZero | OutOfRange

text \<open>
  \<open>buffer[index]\<close> with \<open>int index\<close>: \<open>operator[]\<close> takes a \<open>size_t\<close>, so a negative
  \<open>index\<close> becomes a value of at least \<open>2^64 - 2^31\<close> (64-bit \<open>size_t\<close>), beyond the end
  of every vector whose size came from an \<open>unsigned int\<close>. The access is inside the
  vector exactly when \<open>index\<close> is non-negative and below the vector's size.
\<close>

definition in_buffer :: "BlocksBuffer \<Rightarrow> int32 \<Rightarrow> bool" where
  "in_buffer st index \<longleftrightarrow> 0 \<le> sint index \<and> nat (sint index) < length (buffer st)"

text \<open>
  \<open>BlocksBuffer::AddBlock\<close>. Both branches of the test \<open>b.number() == current_blocknum\<close>
  store the same pair; they differ in the lock and the notification only.
\<close>

definition AddBlock :: "BlocksBuffer \<Rightarrow> Block \<Rightarrow> fault + BlocksBuffer" where
  "AddBlock st b =
     (if buffer_size st = 0 then Inl DivisionByZero
      else
        let epoch = number b div buffer_size st;
            index = number b mod buffer_size st
        in if number b = current_blocknum st then
             (if in_buffer st index
              then Inr (st\<lparr>buffer := (buffer st)[nat (sint index) := (b, epoch)]\<rparr>)
              else Inl OutOfRange)
           else
             (if in_buffer st index
              then Inr (st\<lparr>buffer := (buffer st)[nat (sint index) := (b, epoch)]\<rparr>)
              else Inl OutOfRange))"

text \<open>
  \<open>BlocksBuffer::GetCurrentBlock\<close> either returns a block and leaves a new state, or
  suspends its thread on \<open>current_slot_cv\<close> (having computed \<open>index\<close>), or runs into
  one of the faults. \<open>current_blocknum++\<close> at \<open>INT_MAX\<close> is a signed overflow, which C++
  leaves undefined; the model gives it the two's-complement wrap-around of the word.
\<close>

datatype get_result =
  Delivered Block BlocksBuffer
| Suspended int32
| Failed fault

definition GetCurrentBlock :: "BlocksBuffer \<Rightarrow> get_result" where
  "GetCurrentBlock st =
     (if buffer_size st = 0 then Failed DivisionByZero
      else
        let epoch = current_blocknum st div buffer_size st;
            index = current_blocknum st mod buffer_size st
        in if \<not> in_buffer st index then Failed OutOfRange
           else if snd (buffer st ! nat (sint index)) = epoch
           then Delivered (fst (buffer st ! nat (sint index)))
                  (st\<lparr>current_blocknum := current_blocknum st + 1\<rparr>)
           else Suspended index)"

text \<open>
  The rest of the \<open>else\<close> branch of \<open>GetCurrentBlock\<close>, run when the thread wakes from
  \<open>current_slot_cv.wait\<close>: the state is the one found at that moment, \<open>index\<close> the one
  computed before the wait. The slot is not tested again.
\<close>

definition GetCurrentBlock_wake :: "BlocksBuffer \<Rightarrow> int32 \<Rightarrow> get_result" where
  "GetCurrentBlock_wake st index =
     (if in_buffer st index
      then Delivered (fst (buffer st ! nat (sint index)))
             (st\<lparr>current_blocknum := current_blocknum st + 1\<rparr>)
      else Failed OutOfRange)"

text \<open>\<open>BlocksBuffer::SetCurrentBlocknum\<close>.\<close>

definition SetCurrentBlocknum :: "BlocksBuffer \<Rightarrow> int32 \<Rightarrow> BlocksBuffer" where
  "SetCurrentBlocknum st blocknum = st\<lparr>current_blocknum := blocknum\<rparr>"

subsection \<open>Sequences of calls\<close>

text \<open>
  A producer that calls \<open>AddBlock\<close> for each block of a list in turn, and a consumer that
  calls \<open>GetCurrentBlock\<close> \<open>n\<close> times and collects what it is given. A consumer whose
  call suspends (no other call follows in a sequential run) or faults has no result.
\<close>

fun add_blocks :: "BlocksBuffer \<Rightarrow> Block list \<Rightarrow> fault + BlocksBuffer" where
  "add_blocks st [] = Inr st"
| "add_blocks st (b # bs) =
     (case AddBlock st b of Inl e \<Rightarrow> Inl e | Inr st' \<Rightarrow> add_blocks st' bs)"

fun get_blocks :: "nat \<Rightarrow> BlocksBuffer \<Rightarrow> (Block list \<times> BlocksBuffer) option" where
  "get_blocks 0 st = Some ([], st)"
| "get_blocks (Suc n) st =
     (case GetCurrentBlock st of
        Delivered b st' \<Rightarrow>
          (case get_blocks n st' of
             None \<Rightarrow> None
           | Some (bs, st'') \<Rightarrow> Some (b # bs, st''))
      | Suspended i \<Rightarrow> None
      | Failed e \<Rightarrow> None)"

text \<open>
  The class keeps \<open>buffer.size() == buffer_size\<close>: the constructor sets it up and no
  member function resizes the vector.
\<close>

definition sized :: "BlocksBuffer \<Rightarrow> bool" where
  "sized st \<longleftrightarrow> length (buffer st) = unat (buffer_size st)"

subsection \<open>Histories of calls\<close>

text \<open>
  A history is a list of calls on one object, in the order in which they take effect.
  A call of \<open>GetCurrentBlock\<close> that returns at once is one entry; for a call that
  waited, the entry is its wake-up, with the index it computed before the wait. A step
  that suspends or faults has no successor state.
\<close>

datatype call =
  CallAddBlock Block
| CallGetCurrentBlock
| WakeGetCurrentBlock int32
| CallSetCurrentBlocknum int32

fun step :: "BlocksBuffer \<Rightarrow> call \<Rightarrow> BlocksBuffer option" where
  "step st (CallAddBlock b) =
     (case AddBlock st b of Inl e \<Rightarrow> None | Inr st' \<Rightarrow> Some st')"
| "step st CallGetCurrentBlock =
     (case GetCurrentBlock st of
        Delivered b st' \<Rightarrow> Some st' | Suspended i \<Rightarrow> None | Failed e \<Rightarrow> None)"
| "step st (WakeGetCurrentBlock i) =
     (case GetCurrentBlock_wake st i of
        Delivered b st' \<Rightarrow> Some st' | Suspended j \<Rightarrow> None | Failed e \<Rightarrow> None)"
| "step st (CallSetCurrentBlocknum n) = Some (SetCurrentBlocknum st n)"

fun run :: "BlocksBuffer \<Rightarrow> call list \<Rightarrow> BlocksBuffer option" where
  "run st [] = Some st"
| "run st (c # cs) = (case step st c of None \<Rightarrow> None | Some st' \<Rightarrow> run st' cs)"

text \<open>
  The block of the last \<open>AddBlock\<close> call of a history that wrote slot \<open>i\<close> of a buffer
  of \<open>bsize\<close> slots, if any.
\<close>

fun last_written :: "uint32 \<Rightarrow> call list \<Rightarrow> nat \<Rightarrow> Block option" where
  "last_written bsize [] i = None"
| "last_written bsize (c # cs) i =
     (case last_written bsize cs i of
        Some b \<Rightarrow> Some b
      | None \<Rightarrow>
          (case c of
             CallAddBlock b \<Rightarrow>
               if nat (sint (number b mod bsize)) = i then Some b else None
           | CallGetCurrentBlock \<Rightarrow> None
           | WakeGetCurrentBlock j \<Rightarrow> None
           | CallSetCurrentBlocknum n \<Rightarrow> None))"

subsection \<open>Locks held around the slot accesses\<close>

text \<open>
  The synchronisation skeleton of the member functions: the operations on the two
  mutexes and on the condition variable, and the accesses to \<open>buffer[index]\<close>, in
  program order. \<open>lock_guard\<close> and \<open>unique_lock\<close> acquire where they are declared and
  release at the end of the scope, in reverse order of declaration;
  \<open>current_slot_cv.wait(slot_lck)\<close> releases \<open>current_slot_mutex\<close>, blocks, and
  acquires it again before it returns.
\<close>

datatype mutex = current_blocknum_mutex | current_slot_mutex

datatype event =
  Acquire mutex
| Release mutex
| SlotWrite int32
| SlotRead int32
| NotifyOne
| Wait

definition AddBlock_events :: "BlocksBuffer \<Rightarrow> Block \<Rightarrow> event list" where
  "AddBlock_events st b =
     (let index = number b mod buffer_size st
      in if number b = current_blocknum st
         then [Acquire current_slot_mutex, SlotWrite index, NotifyOne,
               Release current_slot_mutex]
         else [SlotWrite index])"

definition GetCurrentBlock_events :: "BlocksBuffer \<Rightarrow> event list" where
  "GetCurrentBlock_events st =
     (let epoch = current_blocknum st div buffer_size st;
          index = current_blocknum st mod buffer_size st
      in [Acquire current_blocknum_mutex, Acquire current_slot_mutex, SlotRead index] @
         (if snd (buffer st ! nat (sint index)) = epoch
          then [SlotRead index]
          else [Release current_slot_mutex, Wait, Acquire current_slot_mutex,
                SlotRead index]) @
         [Release current_slot_mutex, Release current_blocknum_mutex])"

text \<open>
  \<open>guarded m held es\<close>: every slot access among the events \<open>es\<close> happens while mutex
  \<open>m\<close> is held, \<open>held\<close> telling whether it is held before the first event.
\<close>

fun guarded :: "mutex \<Rightarrow> bool \<Rightarrow> event list \<Rightarrow> bool" where
  "guarded m held [] = True"
| "guarded m held (Acquire m' # es) = guarded m (held \<or> m' = m) es"
| "guarded m held (Release m' # es) = guarded m (held \<and> m' \<noteq> m) es"
| "guarded m held (SlotWrite i # es) = (held \<and> guarded m held es)"
| "guarded m held (SlotRead i # es) = (held \<and> guarded m held es)"
| "guarded m held (NotifyOne # es) = guarded m held es"
| "guarded m held (Wait # es) = guarded m held es"

section \<open>Reading 32-bit words as \<open>int\<close> and as \<open>unsigned int\<close>\<close>

lemma unat_uint_less31: "unat (w::32 word) < 2147483648 \<longleftrightarrow> uint w < 2147483648"
  using uint_nat [of w] by linarith

lemma uint_less32: "uint (w::32 word) < 4294967296"
  using uint_lt2p [of w] by simp

lemma unat_less32: "unat (w::32 word) < 4294967296"
  using uint_less32 [of w] uint_nat [of w] by linarith

lemma sint_shift: "sint (w::32 word) = (uint w + 2147483648) mod 4294967296 - 2147483648"
  by (simp add: sint_uint signed_take_bit_eq_take_bit_shift take_bit_eq_mod)

lemma sint_low:
  assumes "unat (w::32 word) < 2147483648"
  shows "sint w = int (unat w)"
proof -
  have "uint w < 2147483648" using assms by (simp only: unat_uint_less31)
  moreover have "0 \<le> uint w" by simp
  ultimately have "(uint w + 2147483648) mod 4294967296 = uint w + 2147483648"
    by simp
  then have "sint w = uint w" by (simp only: sint_shift)
  then show ?thesis by (simp only: uint_nat)
qed

lemma sint_high:
  assumes "\<not> unat (w::32 word) < 2147483648"
  shows "sint w = int (unat w) - 4294967296"
proof -
  have h: "2147483648 \<le> uint w" using assms by (simp only: unat_uint_less31 not_less)
  have b: "uint w < 4294967296" by (rule uint_less32)
  have "uint w + 2147483648 = uint w - 2147483648 + 1 * 4294967296"
    by simp
  then have "(uint w + 2147483648) mod 4294967296
      = (uint w - 2147483648 + 1 * 4294967296) mod 4294967296"
    by (rule arg_cong)
  also have "\<dots> = (uint w - 2147483648) mod 4294967296"
    by (rule mod_mult_self1)
  also have "\<dots> = uint w - 2147483648"
    using b h by simp
  finally have "sint w = uint w - 4294967296" by (simp only: sint_shift)
  then show ?thesis by (simp only: uint_nat)
qed

lemma sint_nonneg_iff: "0 \<le> sint (w::32 word) \<longleftrightarrow> unat w < 2147483648"
proof (cases "unat w < 2147483648")
  case True
  then show ?thesis using sint_low [OF True] by linarith
next
  case False
  then show ?thesis using sint_high [OF False] unat_less32 [of w] by linarith
qed

lemma nat_sint_low: "unat (w::32 word) < 2147483648 \<Longrightarrow> nat (sint w) = unat w"
  using sint_low [of w] by linarith

lemma unat_mod_less: "(c::32 word) \<noteq> 0 \<Longrightarrow> unat (n mod c) < unat c"
  by (simp add: unat_mod unat_gt_0)

lemma unat_mod_le: "unat ((n::32 word) mod c) \<le> unat n"
  by (simp add: unat_mod)

lemma unat_div_le: "unat ((n::32 word) div c) \<le> unat n"
  by (simp add: unat_div)

section \<open>The member functions on a well-formed object\<close>

lemma sized_new: "sized (new_BlocksBuffer c)"
  by (simp add: sized_def new_BlocksBuffer_def)

lemma in_buffer_iff:
  "in_buffer st i \<longleftrightarrow> unat i < 2147483648 \<and> unat i < length (buffer st)"
proof (cases "unat i < 2147483648")
  case True
  then show ?thesis
    using nat_sint_low [OF True] by (simp add: in_buffer_def sint_nonneg_iff)
next
  case False
  then show ?thesis by (simp add: in_buffer_def sint_nonneg_iff)
qed

lemma in_buffer_low:
  "unat i < 2147483648 \<Longrightarrow> unat i < length (buffer st) \<Longrightarrow> in_buffer st i"
  by (simp add: in_buffer_iff)

lemma in_buffer_unat: "in_buffer st i \<Longrightarrow> nat (sint i) = unat i \<and> unat i < length (buffer st)"
  by (simp add: in_buffer_iff nat_sint_low)

text \<open>A non-negative number gives an index inside the vector, whatever the size.\<close>

lemma in_buffer_mod_nonneg:
  assumes "sized st" "buffer_size st \<noteq> 0" "0 \<le> sint n"
  shows "in_buffer st (n mod buffer_size st)"
proof -
  have "unat n < 2147483648" using assms(3) by (simp only: sint_nonneg_iff)
  then have "unat (n mod buffer_size st) < 2147483648"
    using unat_mod_le [of n "buffer_size st"] by linarith
  moreover have "unat (n mod buffer_size st) < length (buffer st)"
    using assms(1,2) by (simp add: sized_def unat_mod_less)
  ultimately show ?thesis by (rule in_buffer_low)
qed

text \<open>Up to \<open>2^31\<close> slots, every number does, negative ones included.\<close>

lemma in_buffer_mod_small:
  assumes "sized st" "buffer_size st \<noteq> 0" "unat (buffer_size st) \<le> 2147483648"
  shows "in_buffer st (n mod buffer_size st)"
proof -
  have "unat (n mod buffer_size st) < unat (buffer_size st)"
    using assms(2) by (rule unat_mod_less)
  then have "unat (n mod buffer_size st) < 2147483648"
    "unat (n mod buffer_size st) < length (buffer st)"
    using assms(1,3) by (simp_all add: sized_def)
  then show ?thesis by (rule in_buffer_low)
qed

lemma AddBlock_in_buffer:
  assumes "buffer_size st \<noteq> 0" "in_buffer st (number b mod buffer_size st)"
  shows "AddBlock st b =
    Inr (st\<lparr>buffer := (buffer st)[unat (number b mod buffer_size st) :=
      (b, number b div buffer_size st)]\<rparr>)"
  using assms in_buffer_unat [OF assms(2)] by (simp add: AddBlock_def Let_def)

lemma GetCurrentBlock_match:
  assumes "buffer_size st \<noteq> 0"
    and "in_buffer st (current_blocknum st mod buffer_size st)"
    and "snd (buffer st ! unat (current_blocknum st mod buffer_size st))
         = current_blocknum st div buffer_size st"
  shows "GetCurrentBlock st =
    Delivered (fst (buffer st ! unat (current_blocknum st mod buffer_size st)))
      (st\<lparr>current_blocknum := current_blocknum st + 1\<rparr>)"
  using assms in_buffer_unat [OF assms(2)] by (simp add: GetCurrentBlock_def Let_def)

section \<open>Runs of calls on small sequence numbers\<close>

lemma small_mod_div:
  assumes "unat (n::32 word) < unat c"
  shows "n mod c = n" "n div c = 0"
  using assms by (simp_all add: word_less_nat_alt mod_word_less div_word_less)

lemma AddBlock_small:
  assumes "sized st" "unat (number b) < unat (buffer_size st)" "unat (number b) < 2147483648"
  shows "AddBlock st b = Inr (st\<lparr>buffer := (buffer st)[unat (number b) := (b, 0)]\<rparr>)"
proof -
  have nz: "buffer_size st \<noteq> 0" using assms(2) by auto
  have md: "number b mod buffer_size st = number b" "number b div buffer_size st = 0"
    using assms(2) by (rule small_mod_div)+
  have "in_buffer st (number b)"
    using assms by (simp add: in_buffer_iff sized_def)
  then show ?thesis
    using AddBlock_in_buffer [of st b] nz md by simp
qed

lemma add_blocks_small:
  assumes "sized st"
    and "\<forall>b \<in> set bs. unat (number b) < unat (buffer_size st) \<and> unat (number b) < 2147483648"
  shows "\<exists>st'. add_blocks st bs = Inr st' \<and> sized st'
    \<and> buffer_size st' = buffer_size st
    \<and> current_blocknum st' = current_blocknum st
    \<and> (\<forall>i < length (buffer st). buffer st' ! i =
          (if i \<in> (\<lambda>b. unat (number b)) ` set bs then (Block (of_nat i), 0)
           else buffer st ! i))"
  using assms
proof (induction bs arbitrary: st)
  case Nil
  then show ?case by simp
next
  case (Cons b bs)
  let ?st1 = "st\<lparr>buffer := (buffer st)[unat (number b) := (b, 0)]\<rparr>"
  have b: "unat (number b) < unat (buffer_size st)" "unat (number b) < 2147483648"
    using Cons.prems(2) by simp_all
  have step: "AddBlock st b = Inr ?st1"
    using Cons.prems(1) b by (rule AddBlock_small)
  have s1: "sized ?st1" using Cons.prems(1) by (simp add: sized_def)
  have r1: "\<forall>b \<in> set bs. unat (number b) < unat (buffer_size ?st1) \<and> unat (number b) < 2147483648"
    using Cons.prems(2) by simp
  obtain st' where st': "add_blocks ?st1 bs = Inr st'" "sized st'"
    "buffer_size st' = buffer_size ?st1" "current_blocknum st' = current_blocknum ?st1"
    "\<forall>i < length (buffer ?st1). buffer st' ! i =
          (if i \<in> (\<lambda>b. unat (number b)) ` set bs then (Block (of_nat i), 0)
           else buffer ?st1 ! i)"
    using Cons.IH [OF s1 r1] by blast
  have bb: "b = Block (of_nat (unat (number b)))"
    by (cases b) simp
  have "\<forall>i < length (buffer st). buffer st' ! i =
          (if i \<in> (\<lambda>b. unat (number b)) ` set (b # bs) then (Block (of_nat i), 0)
           else buffer st ! i)"
  proof (intro allI impI)
    fix i assume i: "i < length (buffer st)"
    then have "buffer st' ! i = (if i \<in> (\<lambda>b. unat (number b)) ` set bs then (Block (of_nat i), 0)
           else buffer ?st1 ! i)" using st'(5) by simp
    moreover have "buffer ?st1 ! i = (if i = unat (number b) then (b, 0) else buffer st ! i)"
      using i by (simp add: nth_list_update)
    ultimately show "buffer st' ! i =
          (if i \<in> (\<lambda>b. unat (number b)) ` set (b # bs) then (Block (of_nat i), 0)
           else buffer st ! i)"
      using bb by auto
  qed
  then show ?case using step st' by simp
qed

lemma unat_succ: "unat (w::32 word) < 2147483648 \<Longrightarrow> unat (w + 1) = Suc (unat w)"
  using unat_less32 [of w] by (simp add: unat_word_ariths)

lemma get_blocks_run:
  assumes "sized st"
    and "unat (current_blocknum st) + n \<le> unat (buffer_size st)"
    and "unat (current_blocknum st) + n \<le> 2147483648"
    and "\<forall>j. unat (current_blocknum st) \<le> j \<and> j < unat (current_blocknum st) + n \<longrightarrow>
           buffer st ! j = (Block (of_nat j), 0)"
  shows "get_blocks n st =
    Some (map (\<lambda>j. Block (of_nat j)) [unat (current_blocknum st) ..< unat (current_blocknum st) + n],
          st\<lparr>current_blocknum := current_blocknum st + of_nat n\<rparr>)"
  using assms
proof (induction n arbitrary: st)
  case 0
  then show ?case by simp
next
  case (Suc n)
  let ?w = "current_blocknum st"
  let ?st1 = "st\<lparr>current_blocknum := ?w + 1\<rparr>"
  have lt: "unat ?w < unat (buffer_size st)" "unat ?w < 2147483648"
    using Suc.prems(2,3) by simp_all
  have nz: "buffer_size st \<noteq> 0" using lt(1) by auto
  have md: "?w mod buffer_size st = ?w" "?w div buffer_size st = 0"
    using lt(1) by (rule small_mod_div)+
  have inb: "in_buffer st ?w"
    using Suc.prems(1) lt by (simp add: in_buffer_iff sized_def)
  have slot: "buffer st ! unat ?w = (Block ?w, 0)"
    using Suc.prems(4) by simp
  have step: "GetCurrentBlock st = Delivered (Block ?w) ?st1"
    using GetCurrentBlock_match [of st] nz md inb slot by simp
  have u1: "unat (current_blocknum ?st1) = Suc (unat ?w)"
    using lt(2) by (simp add: unat_succ)
  have p1: "sized ?st1" using Suc.prems(1) by (simp add: sized_def)
  have p2: "unat (current_blocknum ?st1) + n \<le> unat (buffer_size ?st1)"
    using Suc.prems(2) u1 by simp
  have p3: "unat (current_blocknum ?st1) + n \<le> 2147483648"
    using Suc.prems(3) u1 by simp
  have p4: "\<forall>j. unat (current_blocknum ?st1) \<le> j \<and> j < unat (current_blocknum ?st1) + n \<longrightarrow>
           buffer ?st1 ! j = (Block (of_nat j), 0)"
    using Suc.prems(4) u1 by simp
  have ih: "get_blocks n ?st1 =
    Some (map (\<lambda>j. Block (of_nat j)) [Suc (unat ?w) ..< Suc (unat ?w) + n],
          ?st1\<lparr>current_blocknum := current_blocknum ?st1 + of_nat n\<rparr>)"
    using Suc.IH [OF p1 p2 p3 p4] u1 by simp
  have l: "[unat ?w ..< unat ?w + Suc n] = unat ?w # [Suc (unat ?w) ..< Suc (unat ?w) + n]"
    by (simp add: upt_conv_Cons)
  show ?case
    using step ih l by (simp add: add.assoc)
qed

lemma unat_of_nat_small: "j < 4294967296 \<Longrightarrow> unat (of_nat j :: 32 word) = j"
  by (simp add: unat_of_nat)

lemma sint_of_nat_small: "j < 2147483648 \<Longrightarrow> sint (of_nat j :: 32 word) = int j"
  using sint_low [of "of_nat j"] by (simp add: unat_of_nat_small)

lemma sint_eq_int_unat: "sint (w::32 word) = int j \<Longrightarrow> unat w = j \<and> j < 2147483648"
proof -
  assume a: "sint w = int j"
  then have "0 \<le> sint w" by simp
  then have l: "unat w < 2147483648" by (simp only: sint_nonneg_iff)
  then have "sint w = int (unat w)" by (rule sint_low)
  then show ?thesis using a l by linarith
qed

lemma sint_succ:
  assumes "sint (w::32 word) < 2147483647"
  shows "sint (w + 1) = sint w + 1"
proof (cases "unat w < 2147483648")
  case True
  then have s: "sint w = int (unat w)" by (rule sint_low)
  then have "unat w < 2147483647" using assms by linarith
  then have "unat (w + 1) = Suc (unat w)" "unat (w + 1) < 2147483648"
    using unat_succ [OF True] by simp_all
  then show ?thesis using sint_low [of "w + 1"] s by simp
next
  case False
  then have s: "sint w = int (unat w) - 4294967296" by (rule sint_high)
  have u: "unat (w + 1) = (unat w + 1) mod 4294967296"
    by (simp add: unat_word_ariths)
  show ?thesis
  proof (cases "unat w = 4294967295")
    case True
    then have "unat (w + 1) = 0" using u by simp
    then have "sint (w + 1) = 0" using sint_low [of "w + 1"] by simp
    then show ?thesis using s True by simp
  next
    case False
    then have "unat w + 1 < 4294967296" using unat_less32 [of w] by linarith
    then have u': "unat (w + 1) = unat w + 1" using u by simp
    then have "\<not> unat (w + 1) < 2147483648" using \<open>\<not> unat w < 2147483648\<close> by linarith
    then have "sint (w + 1) = int (unat (w + 1)) - 4294967296" by (rule sint_high)
    then show ?thesis using s u' by simp
  qed
qed

lemma fresh_filled:
  assumes "K < unat cap"
    and "mset (map (\<lambda>b. sint (number b)) bs) = mset (map int [0..<Suc K])"
  shows "\<exists>st. add_blocks (new_BlocksBuffer cap) bs = Inr st \<and> sized st
     \<and> buffer_size st = cap \<and> current_blocknum st = 0 \<and> K < 2147483648
     \<and> (\<forall>j \<le> K. buffer st ! j = (Block (of_nat j), 0))"
proof -
  let ?new = "new_BlocksBuffer cap"
  have "set (map (\<lambda>b. sint (number b)) bs) = set (map int [0..<Suc K])"
    using assms(2) by (rule mset_eq_setD)
  then have img: "(\<lambda>b. sint (number b)) ` set bs = int ` {0..K}"
    by (simp only: set_map set_upt atLeastLessThanSuc_atLeastAtMost)
  have each: "unat (number b) \<le> K \<and> unat (number b) < 2147483648" if b: "b \<in> set bs" for b
  proof -
    have "sint (number b) \<in> int ` {0..K}" using b img by blast
    then obtain j where j: "j \<le> K" "sint (number b) = int j"
      by auto
    then show ?thesis using sint_eq_int_unat [of "number b" j] by simp
  qed
  have cover: "\<exists>b \<in> set bs. unat (number b) = j" if j: "j \<le> K" for j
  proof -
    have "int j \<in> (\<lambda>b. sint (number b)) ` set bs" using j img by simp
    then obtain b where "b \<in> set bs" "sint (number b) = int j" by auto
    then show ?thesis using sint_eq_int_unat [of "number b" j] by auto
  qed
  have Kb: "K < 2147483648"
    using cover [of K] each by auto
  have small: "\<forall>b \<in> set bs. unat (number b) < unat (buffer_size ?new)
      \<and> unat (number b) < 2147483648"
    using each assms(1) by (auto simp: new_BlocksBuffer_def dest: le_less_trans)
  obtain st where st: "add_blocks ?new bs = Inr st" "sized st"
    "buffer_size st = buffer_size ?new" "current_blocknum st = current_blocknum ?new"
    "\<forall>i < length (buffer ?new). buffer st ! i =
          (if i \<in> (\<lambda>b. unat (number b)) ` set bs then (Block (of_nat i), 0)
           else buffer ?new ! i)"
    using add_blocks_small [OF sized_new small] by blast
  have c0: "current_blocknum st = 0" "buffer_size st = cap"
    using st(3,4) by (simp_all add: new_BlocksBuffer_def)
  have slots: "\<forall>j \<le> K. buffer st ! j = (Block (of_nat j), 0)"
  proof (intro allI impI)
    fix j assume j: "j \<le> K"
    then have "j < length (buffer ?new)" using assms(1) by (simp add: new_BlocksBuffer_def)
    moreover have "j \<in> (\<lambda>b. unat (number b)) ` set bs" using cover [OF j] by force
    ultimately show "buffer st ! j = (Block (of_nat j), 0)" using st(5) by simp
  qed
  show ?thesis using st(1,2) c0 Kb slots by blast
qed

lemma fresh_filled_consumed:
  assumes "K < unat cap"
    and "mset (map (\<lambda>b. sint (number b)) bs) = mset (map int [0..<Suc K])"
  shows "\<exists>st. add_blocks (new_BlocksBuffer cap) bs = Inr st \<and> sized st
     \<and> buffer_size st = cap \<and> current_blocknum st = 0 \<and> K < 2147483648
     \<and> (\<forall>j \<le> K. buffer st ! j = (Block (of_nat j), 0))
     \<and> get_blocks (Suc K) st =
         Some (map (\<lambda>j. Block (of_nat j)) [0 ..< Suc K],
           st\<lparr>current_blocknum := of_nat (Suc K)\<rparr>)"
proof -
  obtain st where st: "add_blocks (new_BlocksBuffer cap) bs = Inr st" "sized st"
     "buffer_size st = cap" "current_blocknum st = 0" "K < 2147483648"
     "\<forall>j \<le> K. buffer st ! j = (Block (of_nat j), 0)"
    using fresh_filled [OF assms] by blast
  have slots: "\<forall>j. unat (current_blocknum st) \<le> j \<and> j < unat (current_blocknum st) + Suc K \<longrightarrow>
           buffer st ! j = (Block (of_nat j), 0)"
    using st(4,6) by simp
  have "get_blocks (Suc K) st =
    Some (map (\<lambda>j. Block (of_nat j)) [0 ..< Suc K],
          st\<lparr>current_blocknum := current_blocknum st + of_nat (Suc K)\<rparr>)"
    using get_blocks_run [of st "Suc K", OF st(2) _ _ slots] st(3,4,5) assms(1) by simp
  then show ?thesis using st by simp
qed

section \<open>Ordering\<close>

text \<open>
  Claim C1. Take any capacity \<open>cap\<close> and any \<open>K < cap\<close>. On a freshly constructed buffer,
  let \<open>AddBlock\<close> be called for a list of blocks whose sequence numbers, read as \<open>int\<close>,
  are the numbers \<open>0..K\<close>, each exactly once, in any order. Every one of these calls
  returns, and then \<open>K + 1\<close> successive calls of \<open>GetCurrentBlock\<close> all return without
  suspending, and the sequence numbers of the blocks they return are \<open>0, 1, ..., K\<close> in
  this order.
\<close>

theorem in_order_delivery:
  assumes "K < unat cap"
    and "mset (map (\<lambda>b. sint (number b)) bs) = mset (map int [0..<Suc K])"
  shows "\<exists>st out st'. add_blocks (new_BlocksBuffer cap) bs = Inr st
     \<and> get_blocks (Suc K) st = Some (out, st')
     \<and> map (\<lambda>b. sint (number b)) out = map int [0..<Suc K]"
proof -
  obtain st where st: "add_blocks (new_BlocksBuffer cap) bs = Inr st" "K < 2147483648"
     "get_blocks (Suc K) st =
         Some (map (\<lambda>j. Block (of_nat j)) [0 ..< Suc K],
           st\<lparr>current_blocknum := of_nat (Suc K)\<rparr>)"
    using fresh_filled_consumed [OF assms] by blast
  have "map (\<lambda>b. sint (number b)) (map (\<lambda>j. Block (of_nat j :: 32 word)) [0 ..< Suc K])
      = map int [0..<Suc K]"
    using st(2) by (simp add: sint_of_nat_small del: upt_Suc)
  then show ?thesis using st(1,3) by blast
qed

theorem in_order_delivery_witness:
  "2 < unat (4 :: 32 word)
   \<and> mset (map (\<lambda>b. sint (number b)) [Block 2, Block 0, Block 1]) = mset (map int [0..<Suc 2])
   \<and> (\<exists>st out st'. add_blocks (new_BlocksBuffer 4) [Block 2, Block 0, Block 1] = Inr st
        \<and> get_blocks (Suc 2) st = Some (out, st')
        \<and> map (\<lambda>b. sint (number b)) out = map int [0..<Suc 2])"
proof -
  have h1: "2 < unat (4 :: 32 word)" by simp
  have h2: "mset (map (\<lambda>b. sint (number b)) [Block 2, Block 0, Block 1])
      = mset (map int [0..<Suc 2])"
    by (simp add: upt_rec)
  show ?thesis
    using in_order_delivery [OF h1 h2] h1 h2 by blast
qed

section \<open>Wrap-around\<close>

text \<open>
  Claim C3. With capacity 4, on a fresh buffer: \<open>AddBlock\<close> for 0, 1, 2, 3, then four
  calls of \<open>GetCurrentBlock\<close> (they return 0, 1, 2, 3), then \<open>AddBlock\<close> for 4, 5, 6, 7,
  then four more calls of \<open>GetCurrentBlock\<close>: the second round returns 4, 5, 6, 7 in
  order. The slots are the same four, now tagged with epoch 1. Before the second round
  of \<open>AddBlock\<close> calls, a \<open>GetCurrentBlock\<close> for number 4 suspends although slot 0 is
  filled, since that slot still carries epoch 0.
\<close>

theorem wrap_around_capacity_4:
  "add_blocks (new_BlocksBuffer 4) (map Block [0, 1, 2, 3]) =
     Inr \<lparr>buffer_size = 4,
          buffer = [(Block 0, 0), (Block 1, 0), (Block 2, 0), (Block 3, 0)],
          current_blocknum = 0\<rparr>
   \<and> get_blocks 4
       \<lparr>buffer_size = 4,
        buffer = [(Block 0, 0), (Block 1, 0), (Block 2, 0), (Block 3, 0)],
        current_blocknum = 0\<rparr> =
     Some (map Block [0, 1, 2, 3],
       \<lparr>buffer_size = 4,
        buffer = [(Block 0, 0), (Block 1, 0), (Block 2, 0), (Block 3, 0)],
        current_blocknum = 4\<rparr>)
   \<and> GetCurrentBlock
       \<lparr>buffer_size = 4,
        buffer = [(Block 0, 0), (Block 1, 0), (Block 2, 0), (Block 3, 0)],
        current_blocknum = 4\<rparr> = Suspended 0
   \<and> add_blocks
       \<lparr>buffer_size = 4,
        buffer = [(Block 0, 0), (Block 1, 0), (Block 2, 0), (Block 3, 0)],
        current_blocknum = 4\<rparr> (map Block [4, 5, 6, 7]) =
     Inr \<lparr>buffer_size = 4,
          buffer = [(Block 4, 1), (Block 5, 1), (Block 6, 1), (Block 7, 1)],
          current_blocknum = 4\<rparr>
   \<and> get_blocks 4
       \<lparr>buffer_size = 4,
        buffer = [(Block 4, 1), (Block 5, 1), (Block 6, 1), (Block 7, 1)],
        current_blocknum = 4\<rparr> =
     Some (map Block [4, 5, 6, 7],
       \<lparr>buffer_size = 4,
        buffer = [(Block 4, 1), (Block 5, 1), (Block 6, 1), (Block 7, 1)],
        current_blocknum = 8\<rparr>)"
  by code_simp

section \<open>Frame conditions\<close>

text \<open>
  Claim C8. Each member function changes its own part of the state only. A call of
  \<open>AddBlock\<close> that returns leaves \<open>current_blocknum\<close> (and \<open>buffer_size\<close>, and the number
  of slots) as they were and changes no slot other than the one at its index. A call of
  \<open>GetCurrentBlock\<close> that returns, at once or after the wait, leaves every slot as it
  was. \<open>SetCurrentBlocknum\<close> changes \<open>current_blocknum\<close> and nothing else.
\<close>

theorem frame_effects:
  "(AddBlock st b = Inr st1 \<longrightarrow>
      current_blocknum st1 = current_blocknum st \<and> buffer_size st1 = buffer_size st
      \<and> length (buffer st1) = length (buffer st)
      \<and> (\<forall>i. i \<noteq> nat (sint (number b mod buffer_size st)) \<longrightarrow>
            buffer st1 ! i = buffer st ! i))
   \<and> (GetCurrentBlock st = Delivered blk st2 \<longrightarrow>
        buffer st2 = buffer st \<and> buffer_size st2 = buffer_size st)
   \<and> (GetCurrentBlock_wake st idx = Delivered blk' st3 \<longrightarrow>
        buffer st3 = buffer st \<and> buffer_size st3 = buffer_size st)
   \<and> SetCurrentBlocknum st n = st\<lparr>current_blocknum := n\<rparr>
   \<and> buffer (SetCurrentBlocknum st n) = buffer st
   \<and> buffer_size (SetCurrentBlocknum st n) = buffer_size st"
  by (auto simp: AddBlock_def GetCurrentBlock_def GetCurrentBlock_wake_def
      SetCurrentBlocknum_def Let_def split: if_splits)

theorem frame_effects_witness:
  "AddBlock \<lparr>buffer_size = 3, buffer = [(Block 3, 1), (Block 0, - 1), (Block 0, - 1)],
       current_blocknum = 3\<rparr> (Block 4)
     = Inr \<lparr>buffer_size = 3, buffer = [(Block 3, 1), (Block 4, 1), (Block 0, - 1)],
         current_blocknum = 3\<rparr>
   \<and> GetCurrentBlock \<lparr>buffer_size = 3, buffer = [(Block 3, 1), (Block 0, - 1), (Block 0, - 1)],
       current_blocknum = 3\<rparr>
     = Delivered (Block 3) \<lparr>buffer_size = 3,
         buffer = [(Block 3, 1), (Block 0, - 1), (Block 0, - 1)], current_blocknum = 4\<rparr>
   \<and> GetCurrentBlock_wake \<lparr>buffer_size = 3,
       buffer = [(Block 3, 1), (Block 0, - 1), (Block 0, - 1)], current_blocknum = 3\<rparr> 1
     = Delivered (Block 0) \<lparr>buffer_size = 3,
         buffer = [(Block 3, 1), (Block 0, - 1), (Block 0, - 1)], current_blocknum = 4\<rparr>
   \<and> [(Block 3, 1), (Block 4, 1), (Block 0, - 1 :: 32 word)] ! 2
     = [(Block 3, 1), (Block 0, - 1), (Block 0, - 1)] ! 2"
proof -
  let ?st = "\<lparr>buffer_size = 3, buffer = [(Block 3, 1), (Block 0, - 1), (Block 0, - 1)],
       current_blocknum = 3\<rparr>"
  let ?st1 = "\<lparr>buffer_size = 3, buffer = [(Block 3, 1), (Block 4, 1), (Block 0, - 1)],
         current_blocknum = 3\<rparr>"
  let ?st2 = "\<lparr>buffer_size = 3,
         buffer = [(Block 3, 1), (Block 0, - 1), (Block 0, - 1)], current_blocknum = 4\<rparr>"
  have a: "AddBlock ?st (Block 4) = Inr ?st1" by code_simp
  have g: "GetCurrentBlock ?st = Delivered (Block 3) ?st2" by code_simp
  have w: "GetCurrentBlock_wake ?st 1 = Delivered (Block 0) ?st2" by code_simp
  have i: "nat (sint (number (Block 4) mod buffer_size ?st)) = 1" by simp
  show ?thesis
    using frame_effects [of ?st "Block 4" ?st1 "Block 3" ?st2 1 "Block 0" ?st2 0] a g w i
    by simp
qed

section \<open>Delivery without waiting\<close>

text \<open>
  Claim C2, as amended. Let the capacity be positive, and let the slot that
  \<open>GetCurrentBlock\<close> addresses exist and carry the epoch it computes: the index is
  \<open>current_blocknum mod buffer_size\<close> and the epoch \<open>current_blocknum div buffer_size\<close>,
  both taken on the unsigned value of \<open>current_blocknum\<close>, as the code does. Then
  \<open>GetCurrentBlock\<close> returns that slot's block without waiting and leaves the state with
  \<open>current_blocknum\<close> incremented. The new value, read as an \<open>int\<close>, is the old one plus
  one whenever the old one is below \<open>INT_MAX = 2147483647\<close>.
\<close>

theorem GetCurrentBlock_immediate:
  assumes "buffer_size st \<noteq> 0"
    and "in_buffer st (current_blocknum st mod buffer_size st)"
    and "snd (buffer st ! nat (sint (current_blocknum st mod buffer_size st)))
         = current_blocknum st div buffer_size st"
  shows "GetCurrentBlock st =
      Delivered (fst (buffer st ! nat (sint (current_blocknum st mod buffer_size st))))
        (st\<lparr>current_blocknum := current_blocknum st + 1\<rparr>)
    \<and> (sint (current_blocknum st) < 2147483647 \<longrightarrow>
         sint (current_blocknum st + 1) = sint (current_blocknum st) + 1)"
  using assms by (simp add: GetCurrentBlock_def Let_def sint_succ)

theorem GetCurrentBlock_immediate_witness:
  "buffer_size \<lparr>buffer_size = 4, buffer = [(Block 0, - 1), (Block 5, 1), (Block 0, - 1), (Block 0, - 1)],
       current_blocknum = 5\<rparr> \<noteq> 0
   \<and> in_buffer \<lparr>buffer_size = 4, buffer = [(Block 0, - 1), (Block 5, 1), (Block 0, - 1), (Block 0, - 1)],
       current_blocknum = 5\<rparr> (5 mod 4)
   \<and> GetCurrentBlock \<lparr>buffer_size = 4,
       buffer = [(Block 0, - 1), (Block 5, 1), (Block 0, - 1), (Block 0, - 1)],
       current_blocknum = 5\<rparr>
     = Delivered (Block 5) \<lparr>buffer_size = 4,
         buffer = [(Block 0, - 1), (Block 5, 1), (Block 0, - 1), (Block 0, - 1)],
         current_blocknum = 6\<rparr>
   \<and> sint (5 :: 32 word) < 2147483647
   \<and> sint (5 + 1 :: 32 word) = sint (5 :: 32 word) + 1"
proof -
  let ?st = "\<lparr>buffer_size = 4, buffer = [(Block 0, - 1), (Block 5, 1), (Block 0, - 1), (Block 0, - 1)],
       current_blocknum = 5\<rparr>"
  have h1: "buffer_size ?st \<noteq> 0" by simp
  have h2: "in_buffer ?st (current_blocknum ?st mod buffer_size ?st)"
    by (simp add: in_buffer_def)
  have h3: "snd (buffer ?st ! nat (sint (current_blocknum ?st mod buffer_size ?st)))
         = current_blocknum ?st div buffer_size ?st"
    by simp
  show ?thesis
    using GetCurrentBlock_immediate [OF h1 h2 h3] h1 h2 by simp
qed

text \<open>
  Claim C2 as stated fails at \<open>current_blocknum = INT_MAX\<close>. After
  \<open>SetCurrentBlocknum(2147483647)\<close> and \<open>AddBlock(Block(2147483647))\<close> on a fresh buffer
  of capacity 4, slot 3 carries epoch 536870911, so the call returns at once; the
  increment overflows, and the new value is not the old one plus one.
\<close>

theorem increment_at_INT_MAX:
  "AddBlock (SetCurrentBlocknum (new_BlocksBuffer 4) 2147483647) (Block 2147483647) =
     Inr \<lparr>buffer_size = 4,
          buffer = [(Block 0, - 1), (Block 0, - 1), (Block 0, - 1), (Block 2147483647, 536870911)],
          current_blocknum = 2147483647\<rparr>
   \<and> (2147483647 :: 32 word) mod 4 = 3 \<and> (2147483647 :: 32 word) div 4 = 536870911
   \<and> GetCurrentBlock \<lparr>buffer_size = 4,
          buffer = [(Block 0, - 1), (Block 0, - 1), (Block 0, - 1), (Block 2147483647, 536870911)],
          current_blocknum = 2147483647\<rparr> =
       Delivered (Block 2147483647)
         \<lparr>buffer_size = 4,
          buffer = [(Block 0, - 1), (Block 0, - 1), (Block 0, - 1), (Block 2147483647, 536870911)],
          current_blocknum = - 2147483648\<rparr>
   \<and> sint (2147483647 :: 32 word) = 2147483647
   \<and> sint (- 2147483648 :: 32 word) = - 2147483648
   \<and> sint (- 2147483648 :: 32 word) \<noteq> sint (2147483647 :: 32 word) + 1"
  by code_simp

section \<open>Resetting the cursor\<close>

text \<open>
  Claim C5. \<open>SetCurrentBlocknum\<close> sets \<open>current_blocknum\<close> to exactly the value it is
  given. And with a capacity of at least 5: after \<open>AddBlock\<close> for the numbers 0..4 (in any
  order) and five calls of \<open>GetCurrentBlock\<close>, which return 0..4 and leave the cursor
  at 5, the calls \<open>SetCurrentBlocknum(2)\<close>, \<open>AddBlock(Block(2))\<close> and \<open>GetCurrentBlock\<close>
  make the last one return, without waiting, what slot 2 holds at that moment, which is
  the block just submitted again; the cursor is then 3.
\<close>

theorem reset_redelivers:
  assumes "5 \<le> unat cap"
    and "mset (map (\<lambda>b. sint (number b)) bs) = mset (map int [0..<5])"
  shows "current_blocknum (SetCurrentBlocknum st0 n) = n
     \<and> (\<exists>st1 st2 st3 st4.
          add_blocks (new_BlocksBuffer cap) bs = Inr st1
        \<and> get_blocks 5 st1 = Some (map Block [0, 1, 2, 3, 4], st2)
        \<and> current_blocknum st2 = 5
        \<and> AddBlock (SetCurrentBlocknum st2 2) (Block 2) = Inr st3
        \<and> current_blocknum st3 = 2
        \<and> buffer st3 ! 2 = (Block 2, 0)
        \<and> GetCurrentBlock st3 = Delivered (fst (buffer st3 ! 2)) st4
        \<and> current_blocknum st4 = 3)"
proof -
  have K: "4 < unat cap" using assms(1) by simp
  have m: "mset (map (\<lambda>b. sint (number b)) bs) = mset (map int [0..<Suc 4])"
    using assms(2) by simp
  obtain st where st: "add_blocks (new_BlocksBuffer cap) bs = Inr st" "sized st"
     "buffer_size st = cap" "current_blocknum st = 0"
     "\<forall>j \<le> 4. buffer st ! j = (Block (of_nat j), 0)"
     "get_blocks (Suc 4) st =
         Some (map (\<lambda>j. Block (of_nat j)) [0 ..< Suc 4],
           st\<lparr>current_blocknum := of_nat (Suc 4)\<rparr>)"
    using fresh_filled_consumed [OF K m] by blast
  let ?st2 = "st\<lparr>current_blocknum := 5\<rparr>"
  let ?st2' = "SetCurrentBlocknum ?st2 2"
  let ?st3 = "?st2'\<lparr>buffer := (buffer ?st2')[unat (number (Block 2)) := (Block 2, 0)]\<rparr>"
  have g5: "get_blocks 5 st = Some (map Block [0, 1, 2, 3, 4], ?st2)"
    using st(6) by (simp add: upt_rec)
  have sz: "sized ?st2'" "buffer_size ?st2' = cap"
    using st(2,3) by (simp_all add: sized_def SetCurrentBlocknum_def)
  have a: "AddBlock ?st2' (Block 2) = Inr ?st3"
    using AddBlock_small [of ?st2' "Block 2"] sz K by simp
  have len: "2 < length (buffer st)" using st(2,3) K by (simp add: sized_def)
  have slot: "buffer ?st3 ! 2 = (Block 2, 0)"
    using len by (simp add: SetCurrentBlocknum_def)
  have c3: "current_blocknum ?st3 = 2" "buffer_size ?st3 = cap"
    using st(3) by (simp_all add: SetCurrentBlocknum_def)
  have md: "(2 :: 32 word) mod cap = 2" "(2 :: 32 word) div cap = 0"
    using K small_mod_div [of 2 cap] by simp_all
  have inb: "in_buffer ?st3 2"
    using len by (simp add: in_buffer_iff SetCurrentBlocknum_def)
  have nz: "cap \<noteq> 0" using K by auto
  have g: "GetCurrentBlock ?st3 = Delivered (fst (buffer ?st3 ! 2))
      (?st3\<lparr>current_blocknum := current_blocknum ?st3 + 1\<rparr>)"
    using GetCurrentBlock_match [of ?st3] c3 md inb nz slot by simp
  have "current_blocknum (?st3\<lparr>current_blocknum := current_blocknum ?st3 + 1\<rparr>) = 3"
    by (simp add: SetCurrentBlocknum_def)
  then show ?thesis
    using st(1) g5 a c3(1) slot g by (simp add: SetCurrentBlocknum_def)
qed

theorem reset_redelivers_witness:
  "5 \<le> unat (100 :: 32 word)
   \<and> mset (map (\<lambda>b. sint (number b)) (map Block [3, 0, 4, 1, 2])) = mset (map int [0..<5])
   \<and> current_blocknum (SetCurrentBlocknum (new_BlocksBuffer 100) 7) = 7
   \<and> (\<exists>st1 st2 st3 st4.
          add_blocks (new_BlocksBuffer 100) (map Block [3, 0, 4, 1, 2]) = Inr st1
        \<and> get_blocks 5 st1 = Some (map Block [0, 1, 2, 3, 4], st2)
        \<and> current_blocknum st2 = 5
        \<and> AddBlock (SetCurrentBlocknum st2 2) (Block 2) = Inr st3
        \<and> current_blocknum st3 = 2
        \<and> buffer st3 ! 2 = (Block 2, 0)
        \<and> GetCurrentBlock st3 = Delivered (fst (buffer st3 ! 2)) st4
        \<and> current_blocknum st4 = 3)"
proof -
  have h1: "5 \<le> unat (100 :: 32 word)" by simp
  have h2: "mset (map (\<lambda>b. sint (number b)) (map Block [3, 0, 4, 1, 2]))
      = mset (map int [0..<5])"
    by (simp add: upt_rec)
  show ?thesis
    using reset_redelivers [OF h1 h2, of "new_BlocksBuffer 100" 7] h1 h2 by blast
qed

lemma unat_negative: "sint (n::32 word) < 0 \<Longrightarrow> int (unat n) = sint n + 4294967296"
proof -
  assume a: "sint n < 0"
  then have "\<not> unat n < 2147483648"
    using sint_nonneg_iff [of n] by linarith
  then show ?thesis using sint_high [of n] by linarith
qed

lemma sint_mod_small:
  assumes "c \<noteq> 0" "unat (c::32 word) \<le> 2147483648"
  shows "sint (n mod c) = int (unat n) mod int (unat c)"
proof -
  have "unat (n mod c) < unat c" using assms(1) by (rule unat_mod_less)
  then have "unat (n mod c) < 2147483648" using assms(2) by linarith
  then have "sint (n mod c) = int (unat (n mod c))" by (rule sint_low)
  then show ?thesis by (simp add: unat_mod zmod_int)
qed

lemma sint_div_ge2:
  assumes "2 \<le> unat (c::32 word)"
  shows "sint (n div c) = int (unat n) div int (unat c)"
proof -
  have "unat (n div c) = unat n div unat c" by (rule unat_div)
  moreover have "unat n div unat c \<le> unat n div 2"
    using assms by (rule div_le_mono2 [rotated]) simp
  moreover have "unat n div 2 < 2147483648" using unat_less32 [of n] by simp
  ultimately have "unat (n div c) < 2147483648" by linarith
  then have "sint (n div c) = int (unat (n div c))" by (rule sint_low)
  then show ?thesis by (simp add: unat_div zdiv_int)
qed

lemma sint_epoch_negative:
  assumes "c \<noteq> 0" "sint (n::32 word) < 0"
  shows "sint (n div c) =
    (if c = 1 then sint n else (sint n + 4294967296) div int (unat c))"
proof (cases "c = 1")
  case True
  then show ?thesis by simp
next
  case False
  have "unat c \<noteq> 0" using assms(1) by (simp add: unat_eq_zero)
  moreover have "unat c \<noteq> 1"
  proof
    assume "unat c = 1"
    then have "unat c = unat (1 :: 32 word)" by simp
    then have "c = 1" by (rule word_unat_eq_iff [THEN iffD2])
    then show False using False by simp
  qed
  ultimately have "2 \<le> unat c" by linarith
  then show ?thesis using sint_div_ge2 [of c n] unat_negative [OF assms(2)] False by simp
qed

section \<open>Negative sequence numbers\<close>

text \<open>
  Claim C6, as amended. \<open>AddBlock\<close> has no rejection of a negative sequence number (the
  function returns nothing and raises nothing). On a buffer of 1 to \<open>2^31\<close> slots, the
  call with a negative number \<open>seq\<close> returns and overwrites one slot: the one at index
  \<open>(seq + 2^32) mod buffer_size\<close>, with the block and an epoch. The epoch is an \<open>int\<close>
  field; its value is \<open>(seq + 2^32) div buffer_size\<close> when the buffer has at least two
  slots, and \<open>seq\<close> itself when it has one (the quotient \<open>seq + 2^32\<close> does not fit an
  \<open>int\<close>; for \<open>seq = -1\<close> the stored epoch is then \<open>-1\<close>, the value of a slot never
  written).
\<close>

theorem AddBlock_negative_written:
  assumes "sized st" "buffer_size st \<noteq> 0" "unat (buffer_size st) \<le> 2147483648"
    and "sint (number b) < 0"
  shows "AddBlock st b =
      Inr (st\<lparr>buffer := (buffer st)[nat (sint (number b mod buffer_size st)) :=
        (b, number b div buffer_size st)]\<rparr>)
    \<and> 0 \<le> sint (number b mod buffer_size st)
    \<and> nat (sint (number b mod buffer_size st)) < length (buffer st)
    \<and> sint (number b mod buffer_size st)
        = (sint (number b) + 4294967296) mod int (unat (buffer_size st))
    \<and> sint (number b div buffer_size st)
        = (if buffer_size st = 1 then sint (number b)
           else (sint (number b) + 4294967296) div int (unat (buffer_size st)))"
proof -
  have inb: "in_buffer st (number b mod buffer_size st)"
    using assms(1,2,3) by (rule in_buffer_mod_small)
  have a: "AddBlock st b =
      Inr (st\<lparr>buffer := (buffer st)[nat (sint (number b mod buffer_size st)) :=
        (b, number b div buffer_size st)]\<rparr>)"
    using AddBlock_in_buffer [OF assms(2) inb] in_buffer_unat [OF inb] by simp
  have r: "0 \<le> sint (number b mod buffer_size st)"
    "nat (sint (number b mod buffer_size st)) < length (buffer st)"
    using inb by (simp_all add: in_buffer_def)
  have i: "sint (number b mod buffer_size st)
        = (sint (number b) + 4294967296) mod int (unat (buffer_size st))"
    using sint_mod_small [OF assms(2,3), of "number b"] unat_negative [OF assms(4)] by simp
  have e: "sint (number b div buffer_size st)
        = (if buffer_size st = 1 then sint (number b)
           else (sint (number b) + 4294967296) div int (unat (buffer_size st)))"
    using assms(2,4) by (rule sint_epoch_negative)
  show ?thesis using a r i e by simp
qed

theorem AddBlock_negative_written_witness:
  "sized (new_BlocksBuffer 100) \<and> buffer_size (new_BlocksBuffer 100) \<noteq> 0
   \<and> unat (buffer_size (new_BlocksBuffer 100)) \<le> 2147483648
   \<and> sint (number (Block (- 1))) < 0
   \<and> AddBlock (new_BlocksBuffer 100) (Block (- 1)) =
      Inr ((new_BlocksBuffer 100)\<lparr>buffer :=
        (buffer (new_BlocksBuffer 100))[95 := (Block (- 1), 42949672)]\<rparr>)
   \<and> sint ((- 1 :: 32 word) mod 100) = 95
   \<and> sint ((- 1 :: 32 word) div 100) = 42949672
   \<and> sized (new_BlocksBuffer 1) \<and> buffer_size (new_BlocksBuffer 1) \<noteq> 0
   \<and> unat (buffer_size (new_BlocksBuffer 1)) \<le> 2147483648
   \<and> AddBlock (new_BlocksBuffer 1) (Block (- 1)) =
      Inr \<lparr>buffer_size = 1, buffer = [(Block (- 1), - 1)], current_blocknum = 0\<rparr>
   \<and> sint ((- 1 :: 32 word) div 1) = - 1"
proof -
  let ?st = "new_BlocksBuffer 100"
  let ?s1 = "new_BlocksBuffer 1"
  have h1: "sized ?st" by (rule sized_new)
  have h2: "buffer_size ?st \<noteq> 0" by (simp add: new_BlocksBuffer_def)
  have h3: "unat (buffer_size ?st) \<le> 2147483648" by (simp add: new_BlocksBuffer_def)
  have h4: "sint (number (Block (- 1))) < 0" by simp
  have v: "buffer_size ?st = 100" by (simp add: new_BlocksBuffer_def)
  have k1: "sized ?s1" by (rule sized_new)
  have k2: "buffer_size ?s1 \<noteq> 0" by (simp add: new_BlocksBuffer_def)
  have k3: "unat (buffer_size ?s1) \<le> 2147483648" by (simp add: new_BlocksBuffer_def)
  have w: "buffer_size ?s1 = 1" "buffer ?s1 = [(Block 0, - 1)]" "current_blocknum ?s1 = 0"
    by (simp_all add: new_BlocksBuffer_def)
  have A: "AddBlock ?st (Block (- 1)) =
      Inr (?st\<lparr>buffer := (buffer ?st)[95 := (Block (- 1), 42949672)]\<rparr>)
    \<and> sint ((- 1 :: 32 word) mod 100) = 95 \<and> sint ((- 1 :: 32 word) div 100) = 42949672"
    using AddBlock_negative_written [OF h1 h2 h3 h4] by (simp add: v)
  have B: "AddBlock ?s1 (Block (- 1)) =
      Inr \<lparr>buffer_size = 1, buffer = [(Block (- 1), - 1)], current_blocknum = 0\<rparr>
    \<and> sint ((- 1 :: 32 word) div 1) = - 1"
    using AddBlock_negative_written [OF k1 k2 k3 h4] by (simp add: w new_BlocksBuffer_def)
  show ?thesis using A B h1 h2 h3 h4 k1 k2 k3 by blast
qed

text \<open>
  Claim C6 as stated fails: on a fresh buffer of capacity 4, \<open>AddBlock(Block(-1))\<close>
  returns normally and has written slot 3.
\<close>

theorem negative_number_not_rejected:
  "sint (number (Block (- 1))) = - 1
   \<and> AddBlock (new_BlocksBuffer 4) (Block (- 1)) =
     Inr \<lparr>buffer_size = 4,
          buffer = [(Block 0, - 1), (Block 0, - 1), (Block 0, - 1), (Block (- 1), 1073741823)],
          current_blocknum = 0\<rparr>
   \<and> buffer (new_BlocksBuffer 4) =
       [(Block 0, - 1), (Block 0, - 1), (Block 0, - 1), (Block 0, - 1)]"
  by code_simp

text \<open>
  Claim C7, as amended. On a buffer of 1 to \<open>2^31\<close> slots, for every sequence number,
  negative ones included, the \<open>int index\<close> that \<open>AddBlock\<close> computes is at least 0 and
  below the capacity, the access \<open>buffer[index]\<close> is inside the vector, and the call
  returns.
\<close>

theorem AddBlock_index_in_range:
  assumes "sized st" "buffer_size st \<noteq> 0" "unat (buffer_size st) \<le> 2147483648"
  shows "0 \<le> sint (number b mod buffer_size st)
    \<and> sint (number b mod buffer_size st) < int (unat (buffer_size st))
    \<and> in_buffer st (number b mod buffer_size st)
    \<and> (\<exists>st'. AddBlock st b = Inr st')"
proof -
  have inb: "in_buffer st (number b mod buffer_size st)"
    using assms by (rule in_buffer_mod_small)
  then have "0 \<le> sint (number b mod buffer_size st)"
    "nat (sint (number b mod buffer_size st)) < length (buffer st)"
    by (simp_all add: in_buffer_def)
  then have "sint (number b mod buffer_size st) < int (unat (buffer_size st))"
    using assms(1) by (simp add: sized_def nat_less_iff)
  then show ?thesis
    using inb \<open>0 \<le> sint (number b mod buffer_size st)\<close> AddBlock_in_buffer [OF assms(2) inb]
    by simp
qed

theorem AddBlock_index_in_range_witness:
  "sized (new_BlocksBuffer 100) \<and> buffer_size (new_BlocksBuffer 100) \<noteq> 0
   \<and> unat (buffer_size (new_BlocksBuffer 100)) \<le> 2147483648
   \<and> sint ((- 7 :: 32 word) mod 100) = 89
   \<and> in_buffer (new_BlocksBuffer 100) (- 7 mod 100)
   \<and> (\<exists>st'. AddBlock (new_BlocksBuffer 100) (Block (- 7)) = Inr st')"
proof -
  let ?st = "new_BlocksBuffer 100"
  have h1: "sized ?st" by (rule sized_new)
  have h2: "buffer_size ?st \<noteq> 0" by (simp add: new_BlocksBuffer_def)
  have h3: "unat (buffer_size ?st) \<le> 2147483648" by (simp add: new_BlocksBuffer_def)
  have v: "buffer_size ?st = 100" by (simp add: new_BlocksBuffer_def)
  show ?thesis
    using AddBlock_index_in_range [OF h1 h2 h3, of "Block (- 7)"] h1 h2 h3 by (simp add: v)
qed

text \<open>
  Claim C7 as stated fails for a capacity above \<open>2^31\<close>: the unsigned remainder can be
  \<open>2^31\<close> or more, and stored in \<open>int index\<close> it is negative. With capacity
  \<open>4294967295\<close> and sequence number \<open>-2\<close> the index is \<open>-2\<close>, outside the vector.
\<close>

theorem AddBlock_index_negative:
  "sint ((- 2 :: 32 word) mod 4294967295) = - 2
   \<and> AddBlock (new_BlocksBuffer 4294967295) (Block (- 2)) = Inl OutOfRange"
  by (simp add: AddBlock_def new_BlocksBuffer_def in_buffer_def)

section \<open>The cursor set to a negative value\<close>

text \<open>
  Claim C10, as amended. On a buffer of 1 to \<open>2^31\<close> slots, after
  \<open>SetCurrentBlocknum(n)\<close> with any \<open>n\<close>, negative ones included, the \<open>int index\<close> that
  \<open>GetCurrentBlock\<close> computes is at least 0 and below the capacity, the access
  \<open>buffer[index]\<close> is inside the vector, and the call either returns a block or suspends
  on that index: \<open>n\<close> is converted to its unsigned 32-bit value before the division and
  the modulus. The call returns at once exactly when the slot at that index carries the
  epoch \<open>n div buffer_size\<close> of the unsigned division; for a negative \<open>n\<close> the index is
  \<open>(n + 2^32) mod buffer_size\<close> and the epoch, read as an \<open>int\<close>, is
  \<open>(n + 2^32) div buffer_size\<close> (with a single slot, \<open>n\<close> itself). With \<open>n = -1\<close> and
  capacity 100 the index is 95 and the epoch 42949672: on a fresh buffer the call
  suspends on slot 95, with \<open>(Block(-1), 42949672)\<close> in slot 95 it returns that block and
  leaves the cursor at 0, and with epoch 0 in slot 95 (the quotient of the signed division
  of -1 by 100) it suspends.
\<close>

theorem GetCurrentBlock_index_in_range:
  assumes "sized st" "buffer_size st \<noteq> 0" "unat (buffer_size st) \<le> 2147483648"
  shows "0 \<le> sint (n mod buffer_size st)
    \<and> sint (n mod buffer_size st) < int (unat (buffer_size st))
    \<and> in_buffer (SetCurrentBlocknum st n) (n mod buffer_size st)
    \<and> (\<exists>blk st'. GetCurrentBlock (SetCurrentBlocknum st n) = Delivered blk st'
          \<or> GetCurrentBlock (SetCurrentBlocknum st n) = Suspended (n mod buffer_size st))
    \<and> GetCurrentBlock (SetCurrentBlocknum (new_BlocksBuffer 100) (- 1)) = Suspended 95
    \<and> sint (- 1 :: 32 word) = - 1
    \<and> (- 1 :: 32 word) mod 100 = 95 \<and> sint (95 :: 32 word) = 95
    \<and> (- 1 :: 32 word) div 100 = 42949672 \<and> sint (42949672 :: 32 word) = 42949672
    \<and> GetCurrentBlock (SetCurrentBlocknum st n) =
        (if snd (buffer st ! nat (sint (n mod buffer_size st))) = n div buffer_size st
         then Delivered (fst (buffer st ! nat (sint (n mod buffer_size st))))
                (st\<lparr>current_blocknum := n + 1\<rparr>)
         else Suspended (n mod buffer_size st))
    \<and> (sint n < 0 \<longrightarrow>
          sint (n mod buffer_size st) = (sint n + 4294967296) mod int (unat (buffer_size st))
        \<and> sint (n div buffer_size st) =
            (if buffer_size st = 1 then sint n
             else (sint n + 4294967296) div int (unat (buffer_size st))))
    \<and> GetCurrentBlock (SetCurrentBlocknum
          ((new_BlocksBuffer 100)\<lparr>buffer :=
             (buffer (new_BlocksBuffer 100))[95 := (Block (- 1), 42949672)]\<rparr>) (- 1)) =
        Delivered (Block (- 1))
          ((new_BlocksBuffer 100)\<lparr>buffer :=
             (buffer (new_BlocksBuffer 100))[95 := (Block (- 1), 42949672)],
             current_blocknum := 0\<rparr>)
    \<and> GetCurrentBlock (SetCurrentBlocknum
          ((new_BlocksBuffer 100)\<lparr>buffer :=
             (buffer (new_BlocksBuffer 100))[95 := (Block (- 1), 0)]\<rparr>) (- 1)) =
        Suspended 95"
proof -
  let ?st = "SetCurrentBlocknum st n"
  have p: "sized ?st" "buffer_size ?st \<noteq> 0" "unat (buffer_size ?st) \<le> 2147483648"
    "buffer_size ?st = buffer_size st" "current_blocknum ?st = n" "buffer ?st = buffer st"
    using assms by (simp_all add: SetCurrentBlocknum_def sized_def)
  have inb: "in_buffer ?st (n mod buffer_size st)"
    using in_buffer_mod_small [OF p(1,2,3), of n] p(4) by simp
  then have nn: "0 \<le> sint (n mod buffer_size st)"
    and "nat (sint (n mod buffer_size st)) < length (buffer ?st)"
    by (simp_all add: in_buffer_def)
  then have lt: "sint (n mod buffer_size st) < int (unat (buffer_size st))"
    using p(1,4) by (simp add: sized_def nat_less_iff)
  have eq: "GetCurrentBlock ?st =
        (if snd (buffer st ! nat (sint (n mod buffer_size st))) = n div buffer_size st
         then Delivered (fst (buffer st ! nat (sint (n mod buffer_size st))))
                (st\<lparr>current_blocknum := n + 1\<rparr>)
         else Suspended (n mod buffer_size st))"
    using inb p(2,4,5,6) by (simp add: GetCurrentBlock_def Let_def SetCurrentBlocknum_def)
  have g: "\<exists>blk st'. GetCurrentBlock ?st = Delivered blk st'
          \<or> GetCurrentBlock ?st = Suspended (n mod buffer_size st)"
    using eq by simp
  have sg: "sint n < 0 \<longrightarrow>
          sint (n mod buffer_size st) = (sint n + 4294967296) mod int (unat (buffer_size st))
        \<and> sint (n div buffer_size st) =
            (if buffer_size st = 1 then sint n
             else (sint n + 4294967296) div int (unat (buffer_size st)))"
    using sint_mod_small [OF assms(2,3), of n] unat_negative [of n]
      sint_epoch_negative [OF assms(2), of n] by simp
  have ex: "GetCurrentBlock (SetCurrentBlocknum (new_BlocksBuffer 100) (- 1)) = Suspended 95"
    by (simp add: GetCurrentBlock_def SetCurrentBlocknum_def new_BlocksBuffer_def in_buffer_def)
  have ex2: "GetCurrentBlock (SetCurrentBlocknum
          ((new_BlocksBuffer 100)\<lparr>buffer :=
             (buffer (new_BlocksBuffer 100))[95 := (Block (- 1), 42949672)]\<rparr>) (- 1)) =
        Delivered (Block (- 1))
          ((new_BlocksBuffer 100)\<lparr>buffer :=
             (buffer (new_BlocksBuffer 100))[95 := (Block (- 1), 42949672)],
             current_blocknum := 0\<rparr>)"
    by (simp add: GetCurrentBlock_def SetCurrentBlocknum_def new_BlocksBuffer_def in_buffer_def)
  have ex3: "GetCurrentBlock (SetCurrentBlocknum
          ((new_BlocksBuffer 100)\<lparr>buffer :=
             (buffer (new_BlocksBuffer 100))[95 := (Block (- 1), 0)]\<rparr>) (- 1)) =
        Suspended 95"
    by (simp add: GetCurrentBlock_def SetCurrentBlocknum_def new_BlocksBuffer_def in_buffer_def)
  show ?thesis using nn lt inb g ex eq sg ex2 ex3 by simp
qed

theorem GetCurrentBlock_index_in_range_witness:
  "sized (new_BlocksBuffer 100) \<and> buffer_size (new_BlocksBuffer 100) \<noteq> 0
   \<and> unat (buffer_size (new_BlocksBuffer 100)) \<le> 2147483648
   \<and> sint ((- 7 :: 32 word) mod 100) = 89
   \<and> in_buffer (SetCurrentBlocknum (new_BlocksBuffer 100) (- 7)) (- 7 mod 100)
   \<and> GetCurrentBlock (SetCurrentBlocknum (new_BlocksBuffer 100) (- 7)) = Suspended 89
   \<and> sint (- 7 :: 32 word) < 0
   \<and> sint ((- 7 :: 32 word) div 100) = 42949672"
proof -
  let ?st = "new_BlocksBuffer 100"
  have h1: "sized ?st" by (rule sized_new)
  have h2: "buffer_size ?st \<noteq> 0" by (simp add: new_BlocksBuffer_def)
  have h3: "unat (buffer_size ?st) \<le> 2147483648" by (simp add: new_BlocksBuffer_def)
  have v: "buffer_size ?st = 100" by (simp add: new_BlocksBuffer_def)
  have n: "sint (- 7 :: 32 word) < 0" by simp
  have g: "GetCurrentBlock (SetCurrentBlocknum ?st (- 7)) = Suspended 89"
    by (simp add: GetCurrentBlock_def SetCurrentBlocknum_def new_BlocksBuffer_def in_buffer_def)
  show ?thesis
    using GetCurrentBlock_index_in_range [OF h1 h2 h3, of "- 7"] h1 h2 h3 g n by (simp add: v)
qed

text \<open>
  Claim C10 as stated fails for a capacity above \<open>2^31\<close>: with capacity \<open>4294967295\<close>
  and \<open>SetCurrentBlocknum(-2)\<close>, \<open>GetCurrentBlock\<close> computes the index \<open>-2\<close> and reads
  outside the vector.
\<close>

theorem GetCurrentBlock_index_negative:
  "sint ((- 2 :: 32 word) mod 4294967295) = - 2
   \<and> GetCurrentBlock (SetCurrentBlocknum (new_BlocksBuffer 4294967295) (- 2)) = Failed OutOfRange"
  by (simp add: GetCurrentBlock_def SetCurrentBlocknum_def new_BlocksBuffer_def in_buffer_def)

section \<open>The epoch invariant\<close>

lemma step_frame:
  assumes "step st c = Some st'"
  shows "buffer_size st' = buffer_size st \<and> length (buffer st') = length (buffer st)
    \<and> (\<forall>i. buffer st' ! i =
          (case c of
             CallAddBlock b \<Rightarrow>
               if nat (sint (number b mod buffer_size st)) = i
                  \<and> i < length (buffer st)
               then (b, number b div buffer_size st) else buffer st ! i
           | CallGetCurrentBlock \<Rightarrow> buffer st ! i
           | WakeGetCurrentBlock j \<Rightarrow> buffer st ! i
           | CallSetCurrentBlocknum n \<Rightarrow> buffer st ! i))"
proof (cases c)
  case (CallAddBlock b)
  then show ?thesis
    using assms
    by (auto simp: AddBlock_def Let_def in_buffer_def split: if_splits sum.splits)
next
  case CallGetCurrentBlock
  then show ?thesis
    using assms
    by (auto simp: GetCurrentBlock_def Let_def split: if_splits get_result.splits)
next
  case (WakeGetCurrentBlock j)
  then show ?thesis
    using assms
    by (auto simp: GetCurrentBlock_wake_def split: if_splits get_result.splits)
next
  case (CallSetCurrentBlocknum n)
  then show ?thesis
    using assms by (auto simp: SetCurrentBlocknum_def)
qed

lemma run_slots:
  assumes "run st0 cs = Some st"
  shows "buffer_size st = buffer_size st0 \<and> length (buffer st) = length (buffer st0)
    \<and> (\<forall>i < length (buffer st0). buffer st ! i =
          (case last_written (buffer_size st0) cs i of
             None \<Rightarrow> buffer st0 ! i
           | Some b \<Rightarrow> (b, number b div buffer_size st0)))"
  using assms
proof (induction cs arbitrary: st0)
  case Nil
  then show ?case by simp
next
  case (Cons c cs)
  then obtain st1 where s1: "step st0 c = Some st1" and r1: "run st1 cs = Some st"
    by (auto split: option.splits)
  note f = step_frame [OF s1]
  note ih = Cons.IH [OF r1]
  have sz: "buffer_size st = buffer_size st0" "length (buffer st) = length (buffer st0)"
    using f ih by simp_all
  have "buffer st ! i =
          (case last_written (buffer_size st0) (c # cs) i of
             None \<Rightarrow> buffer st0 ! i
           | Some b \<Rightarrow> (b, number b div buffer_size st0))"
    if i: "i < length (buffer st0)" for i
  proof (cases "last_written (buffer_size st0) cs i")
    case None
    then have "buffer st ! i = buffer st1 ! i" using ih f i by simp
    then show ?thesis using f None i by (cases c) simp_all
  next
    case (Some b)
    then show ?thesis using ih f i by simp
  qed
  then show ?case using sz by simp
qed

lemma last_written_Some:
  "last_written bsize cs i = Some b \<Longrightarrow>
     CallAddBlock b \<in> set cs \<and> nat (sint (number b mod bsize)) = i"
proof (induction cs)
  case Nil
  then show ?case by simp
next
  case (Cons c cs)
  then show ?case
    by (cases "last_written bsize cs i"; cases c) (auto split: if_splits)
qed

lemma epoch_not_sentinel:
  assumes "0 \<le> sint (n::32 word)"
  shows "n div c \<noteq> - 1"
proof
  assume "n div c = - 1"
  then have "unat (n div c) = unat (- 1 :: 32 word)" by simp
  then have "unat (n div c) = 4294967295"
    by (simp add: unsigned_minus_1_eq_mask mask_eq_exp_minus_1)
  moreover have "unat (n div c) < 2147483648"
    using assms unat_div_le [of n c] by (simp add: sint_nonneg_iff)
  ultimately show False by simp
qed

lemma same_slot_same_epoch:
  assumes "(n::32 word) div c = m div c" "nat (sint (n mod c)) = nat (sint (m mod c))"
    and "0 \<le> sint (n mod c)" "0 \<le> sint (m mod c)"
  shows "n = m"
proof -
  have "sint (n mod c) = sint (m mod c)" using assms(2,3,4) by simp
  then have "n mod c = m mod c" by (rule signed_word_eqI)
  then have "n div c * c + n mod c = m div c * c + m mod c" using assms(1) by simp
  then show ?thesis by (simp only: div_mult_mod_eq)
qed

text \<open>
  Claim C9. Take any history of calls on a fresh buffer in which every call returned and
  every \<open>AddBlock\<close> was given a non-negative sequence number. Then every slot is either
  the constructor's entry \<open>(Block(0), -1)\<close>, when no \<open>AddBlock\<close> of the history wrote it,
  or holds the block of the last \<open>AddBlock\<close> that wrote it together with the epoch
  \<open>number div buffer_size\<close> of that block, which is not \<open>-1\<close>. Consequently, when
  \<open>current_blocknum\<close> is non-negative and \<open>GetCurrentBlock\<close> returns without waiting,
  the block it returns was stored by an \<open>AddBlock\<close> call of the history, its number is
  \<open>current_blocknum\<close>, and the slot is not the constructor's entry.
\<close>

theorem epoch_invariant:
  assumes "run (new_BlocksBuffer cap) cs = Some st"
    and "\<forall>b. CallAddBlock b \<in> set cs \<longrightarrow> 0 \<le> sint (number b)"
  shows "(\<forall>i < length (buffer st).
            (case last_written cap cs i of
               None \<Rightarrow> buffer st ! i = (Block 0, - 1)
             | Some b \<Rightarrow> CallAddBlock b \<in> set cs \<and> nat (sint (number b mod cap)) = i
                 \<and> buffer st ! i = (b, number b div cap) \<and> number b div cap \<noteq> - 1))
    \<and> (\<forall>blk st'. 0 \<le> sint (current_blocknum st)
          \<and> GetCurrentBlock st = Delivered blk st' \<longrightarrow>
            CallAddBlock blk \<in> set cs
          \<and> number blk = current_blocknum st
          \<and> buffer st ! nat (sint (current_blocknum st mod cap))
              = (blk, current_blocknum st div cap)
          \<and> buffer st ! nat (sint (current_blocknum st mod cap)) \<noteq> (Block 0, - 1))"
proof -
  let ?new = "new_BlocksBuffer cap"
  note r = run_slots [OF assms(1)]
  have bs: "buffer_size st = cap" and len: "length (buffer st) = unat cap"
    using r by (simp_all add: new_BlocksBuffer_def)
  have slot: "buffer st ! i =
      (case last_written cap cs i of None \<Rightarrow> (Block 0, - 1) | Some b \<Rightarrow> (b, number b div cap))"
    if i: "i < length (buffer st)" for i
    using r i by (simp add: new_BlocksBuffer_def split: option.splits)
  have inv: "case last_written cap cs i of
               None \<Rightarrow> buffer st ! i = (Block 0, - 1)
             | Some b \<Rightarrow> CallAddBlock b \<in> set cs \<and> nat (sint (number b mod cap)) = i
                 \<and> buffer st ! i = (b, number b div cap) \<and> number b div cap \<noteq> - 1"
    if i: "i < length (buffer st)" for i
  proof (cases "last_written cap cs i")
    case None
    then show ?thesis using slot [OF i] by simp
  next
    case (Some b)
    then have w: "CallAddBlock b \<in> set cs" "nat (sint (number b mod cap)) = i"
      using last_written_Some [of cap cs i b] by simp_all
    then have "0 \<le> sint (number b)" using assms(2) by blast
    then have "number b div cap \<noteq> - 1" by (rule epoch_not_sentinel)
    then show ?thesis using Some w slot [OF i] by simp
  qed
  have del: "CallAddBlock blk \<in> set cs \<and> number blk = current_blocknum st
          \<and> buffer st ! nat (sint (current_blocknum st mod cap))
              = (blk, current_blocknum st div cap)
          \<and> buffer st ! nat (sint (current_blocknum st mod cap)) \<noteq> (Block 0, - 1)"
    if nn: "0 \<le> sint (current_blocknum st)" and g: "GetCurrentBlock st = Delivered blk st'"
    for blk st'
  proof -
    let ?c = "current_blocknum st"
    let ?i = "nat (sint (?c mod cap))"
    have inb: "in_buffer st (?c mod cap)"
      and ep: "snd (buffer st ! ?i) = ?c div cap"
      and bl: "blk = fst (buffer st ! ?i)"
      using g bs by (auto simp: GetCurrentBlock_def Let_def split: if_splits)
    have i: "?i < length (buffer st)" and ci: "0 \<le> sint (?c mod cap)"
      using inb by (simp_all add: in_buffer_def)
    have ne: "?c div cap \<noteq> - 1" using nn by (rule epoch_not_sentinel)
    show ?thesis
    proof (cases "last_written cap cs ?i")
      case None
      then have "buffer st ! ?i = (Block 0, - 1)" using inv [OF i] by simp
      then show ?thesis using ep ne by simp
    next
      case (Some b)
      then have w: "CallAddBlock b \<in> set cs" "nat (sint (number b mod cap)) = ?i"
        "buffer st ! ?i = (b, number b div cap)"
        using inv [OF i] by simp_all
      then have b: "blk = b" "number b div cap = ?c div cap" using bl ep by simp_all
      have "0 \<le> sint (number b)" using assms(2) w(1) by blast
      then have "unat (number b mod cap) < 2147483648"
        using unat_mod_le [of "number b" cap] by (simp add: sint_nonneg_iff)
      then have bi: "0 \<le> sint (number b mod cap)" by (simp add: sint_nonneg_iff)
      have "number b = ?c"
        using b(2) w(2) bi ci by (rule same_slot_same_epoch)
      then show ?thesis using w b ne by auto
    qed
  qed
  show ?thesis using inv del by blast
qed

theorem epoch_invariant_witness:
  "run (new_BlocksBuffer 4)
     [CallAddBlock (Block 5), CallAddBlock (Block 1), CallSetCurrentBlocknum 1] =
     Some \<lparr>buffer_size = 4,
           buffer = [(Block 0, - 1), (Block 1, 0), (Block 0, - 1), (Block 0, - 1)],
           current_blocknum = 1\<rparr>
   \<and> last_written 4
       [CallAddBlock (Block 5), CallAddBlock (Block 1), CallSetCurrentBlocknum 1] 1 =
     Some (Block 1)
   \<and> 0 \<le> sint (1 :: 32 word)
   \<and> GetCurrentBlock \<lparr>buffer_size = 4,
           buffer = [(Block 0, - 1), (Block 1, 0), (Block 0, - 1), (Block 0, - 1)],
           current_blocknum = 1\<rparr> =
     Delivered (Block 1) \<lparr>buffer_size = 4,
           buffer = [(Block 0, - 1), (Block 1, 0), (Block 0, - 1), (Block 0, - 1)],
           current_blocknum = 2\<rparr>
   \<and> CallAddBlock (Block 1)
       \<in> set [CallAddBlock (Block 5), CallAddBlock (Block 1), CallSetCurrentBlocknum 1]"
proof -
  let ?cs = "[CallAddBlock (Block 5), CallAddBlock (Block 1), CallSetCurrentBlocknum 1]"
  let ?st = "\<lparr>buffer_size = 4,
           buffer = [(Block 0, - 1), (Block 1, 0), (Block 0, - 1), (Block 0, - 1)],
           current_blocknum = 1\<rparr>"
  let ?st' = "\<lparr>buffer_size = 4,
           buffer = [(Block 0, - 1), (Block 1, 0), (Block 0, - 1), (Block 0, - 1)],
           current_blocknum = 2\<rparr>"
  have h1: "run (new_BlocksBuffer 4) ?cs = Some ?st" by code_simp
  have h2: "\<forall>b. CallAddBlock b \<in> set ?cs \<longrightarrow> 0 \<le> sint (number b)" by auto
  have l: "last_written 4 ?cs 1 = Some (Block 1)" by code_simp
  have g: "GetCurrentBlock ?st = Delivered (Block 1) ?st'" by code_simp
  have n: "0 \<le> sint (1 :: 32 word)" by simp
  have "CallAddBlock (Block 1) \<in> set ?cs"
    using epoch_invariant [OF h1 h2] g n by auto
  then show ?thesis using h1 l g n by blast
qed

section \<open>Locking of the slot accesses\<close>

lemma GetCurrentBlock_reads_guarded:
  "guarded current_slot_mutex False (GetCurrentBlock_events st)"
  by (simp add: GetCurrentBlock_events_def Let_def)

lemma AddBlock_write_guarded_iff:
  "guarded current_slot_mutex False (AddBlock_events st b) \<longleftrightarrow> number b = current_blocknum st"
  by (simp add: AddBlock_events_def Let_def)

text \<open>
  Claim C4 asks that the slot write of an \<open>AddBlock\<close> call whose number is not
  \<open>current_blocknum\<close> be made under the mutex that guards the slot reads. Every slot read
  of \<open>GetCurrentBlock\<close> is made with \<open>current_slot_mutex\<close> held, and so is the write of
  an \<open>AddBlock\<close> call whose number equals \<open>current_blocknum\<close>; but the \<open>else\<close> branch
  of \<open>AddBlock\<close> writes the slot with no mutex held. On a fresh buffer of capacity 100,
  \<open>AddBlock(Block(5))\<close> writes slot 5 unguarded, while \<open>AddBlock(Block(0))\<close> takes the
  lock.
\<close>

theorem unlocked_slot_write:
  "number (Block 5) \<noteq> current_blocknum (new_BlocksBuffer 100)
   \<and> AddBlock_events (new_BlocksBuffer 100) (Block 5) = [SlotWrite 5]
   \<and> \<not> guarded current_slot_mutex False (AddBlock_events (new_BlocksBuffer 100) (Block 5))
   \<and> AddBlock_events (new_BlocksBuffer 100) (Block 0) =
       [Acquire current_slot_mutex, SlotWrite 0, NotifyOne, Release current_slot_mutex]
   \<and> guarded current_slot_mutex False (AddBlock_events (new_BlocksBuffer 100) (Block 0))"
  by (simp add: AddBlock_events_def new_BlocksBuffer_def)

end
